theory Spec2Isabelle
  imports Complex_Main
begin

section \<open>Belief propagation on an Ising spin chain (stats/bp.py)\<close>

text \<open>
  The module computes single-site marginals of a chain of spins by passing messages
  from both ends. It is embedded twice. The first embedding computes on the type
  \<open>real\<close>, with exact arithmetic; it serves the properties about the shape of the
  computation: which error is raised and when, how long the lists are, which coupling
  and field each update uses, and the algebraic form of the update. The second
  embedding (section \<open>The same functions on double-precision values\<close>) computes on
  doubles with their infinities and nan; it serves the properties about the values
  that \<open>marginals\<close> returns, which overflow of the exponential changes.

  Python names starting with an underscore lose it, since an identifier cannot start
  with one.
\<close>

subsection \<open>Spin values and potentials\<close>

definition SU :: int where
  "SU = 1"

definition SD :: int where
  "SD = - 1"

definition phi_interaction :: "int \<Rightarrow> int \<Rightarrow> real \<Rightarrow> real \<Rightarrow> real" where
  \<comment> \<open>\<^verbatim>\<open>np.exp(beta*J*float(x_1)*float(x_2))\<close>\<close>
  "phi_interaction x_1 x_2 J beta = exp (beta * J * real_of_int x_1 * real_of_int x_2)"

definition phi_field :: "int \<Rightarrow> real \<Rightarrow> real \<Rightarrow> real" where
  \<comment> \<open>\<^verbatim>\<open>np.exp(beta*h*x_1)\<close>\<close>
  "phi_field x_1 h beta = exp (beta * h * real_of_int x_1)"

subsection \<open>Message update\<close>

definition tmp_up :: "real \<Rightarrow> real \<Rightarrow> real \<Rightarrow> real \<Rightarrow> real" where
  \<comment> \<open>the local \<^verbatim>\<open>tmp_up\<close> of \<^verbatim>\<open>_propagate_message\<close>: non normalised positive message\<close>
  "tmp_up beta jj hh mu_up =
     phi_interaction SU SU jj beta * phi_field SU hh beta * mu_up
     + phi_interaction SU SD jj beta * phi_field SD hh beta * (1 - mu_up)"

definition tmp_dw :: "real \<Rightarrow> real \<Rightarrow> real \<Rightarrow> real \<Rightarrow> real" where
  \<comment> \<open>the local \<^verbatim>\<open>tmp_dw\<close> of \<^verbatim>\<open>_propagate_message\<close>: non normalised negative message\<close>
  "tmp_dw beta jj hh mu_up =
     phi_interaction SD SU jj beta * phi_field SU hh beta * mu_up
     + phi_interaction SD SD jj beta * phi_field SD hh beta * (1 - mu_up)"

definition propagate_message :: "real \<Rightarrow> real \<Rightarrow> real \<Rightarrow> real \<Rightarrow> real" where
  "propagate_message beta jj hh mu_up =
     tmp_up beta jj hh mu_up / (tmp_up beta jj hh mu_up + tmp_dw beta jj hh mu_up)"

subsection \<open>Propagation along the chain\<close>

datatype error = ValueError

text \<open>
  The three slices of the source. \<^verbatim>\<open>xs[:-1]\<close> drops the last element, \<^verbatim>\<open>xs[::-1]\<close>
  reverses, and \<^verbatim>\<open>xs[-2::-1]\<close> walks from index \<open>len - 2\<close> down to index \<open>0\<close>
  (it is empty when the list has fewer than two elements).
\<close>

definition slice_drop_last :: "'a list \<Rightarrow> 'a list" where
  "slice_drop_last xs = take (length xs - 1) xs"

definition slice_reversed :: "'a list \<Rightarrow> 'a list" where
  "slice_reversed xs = rev xs"

definition slice_from_m2_reversed :: "'a list \<Rightarrow> 'a list" where
  "slice_from_m2_reversed xs = map (\<lambda>i. xs ! i) (rev [0 ..< length xs - 1])"

text \<open>
  The \<^verbatim>\<open>for jj, hh in j_h_list\<close> loop, with its two variables \<^verbatim>\<open>messages_output\<close>
  and \<^verbatim>\<open>message_previous\<close> passed along.
\<close>

fun chain_loop :: "real \<Rightarrow> (real \<times> real) list \<Rightarrow> real list \<Rightarrow> real \<Rightarrow> real list" where
  "chain_loop beta [] messages_output message_previous = messages_output"
| "chain_loop beta ((jj, hh) # rest) messages_output message_previous =
     (let message_next = propagate_message beta jj hh message_previous
      in chain_loop beta rest (messages_output @ [message_next]) message_next)"

definition propagate_messages_chain ::
  "real \<Rightarrow> real list \<Rightarrow> real list \<Rightarrow> real \<Rightarrow> string \<Rightarrow> error + real list" where
  "propagate_messages_chain beta coupling field message_start direction =
     (if int (length coupling) \<noteq> int (length field) - 1 then Inl ValueError
      else if direction \<notin> set [''left'', ''right''] then Inl ValueError
      else
        let j_h_list =
              (if direction = ''left'' then zip coupling (slice_drop_last field)
               else zip (slice_reversed coupling) (slice_from_m2_reversed field));
            messages_output = chain_loop beta j_h_list [message_start] message_start
        in Inr (if direction = ''right'' then rev messages_output else messages_output))"

subsection \<open>Marginals\<close>

definition lf_up :: "real \<Rightarrow> real list \<Rightarrow> real list" where
  "lf_up beta field = map (\<lambda>hh. exp (beta * hh * real_of_int SU)) field"

definition lf_dw :: "real \<Rightarrow> real list \<Rightarrow> real list" where
  "lf_dw beta field = map (\<lambda>hh. exp (beta * hh * real_of_int SD)) field"

definition mu_up_non :: "real list \<Rightarrow> real list \<Rightarrow> real list \<Rightarrow> real list" where
  "mu_up_non mu_left lfs mu_right =
     map (\<lambda>(ml, lf, mr). ml * lf * mr) (zip mu_left (zip lfs mu_right))"

definition mu_dw_non :: "real list \<Rightarrow> real list \<Rightarrow> real list \<Rightarrow> real list" where
  "mu_dw_non mu_left lfs mu_right =
     map (\<lambda>(ml, lf, mr). (1 - ml) * lf * (1 - mr)) (zip mu_left (zip lfs mu_right))"

definition marginals_list :: "real list \<Rightarrow> real list \<Rightarrow> real list" where
  "marginals_list ups dws = map (\<lambda>(mu_up, mu_dw). mu_up / (mu_up + mu_dw)) (zip ups dws)"

definition marginals :: "real \<Rightarrow> real list \<Rightarrow> real list \<Rightarrow> error + real list" where
  "marginals beta coupling field =
     (if int (length coupling) \<noteq> int (length field) - 1 then Inl ValueError
      else
        let message_start = 1 / 2 in
        case propagate_messages_chain beta coupling field message_start ''left'' of
          Inl e \<Rightarrow> Inl e
        | Inr mu_left \<Rightarrow>
            (case propagate_messages_chain beta coupling field message_start ''right'' of
               Inl e \<Rightarrow> Inl e
             | Inr mu_right \<Rightarrow>
                 Inr (marginals_list (mu_up_non mu_left (lf_up beta field) mu_right)
                                     (mu_dw_non mu_left (lf_dw beta field) mu_right))))"

section \<open>Auxiliary definitions\<close>

text \<open>
  The list of messages the loop produces from a starting message: the starting message
  followed by one update per \<open>(coupling, field)\<close> pair. It is used to describe the
  loop without its accumulator.
\<close>

fun messages_from :: "real \<Rightarrow> (real \<times> real) list \<Rightarrow> real \<Rightarrow> real list" where
  "messages_from beta [] m = [m]"
| "messages_from beta ((jj, hh) # rest) m = m # messages_from beta rest (propagate_message beta jj hh m)"

text \<open>
  The message update as the specification words it: for the outgoing spin \<open>s'\<close>, the sum
  over the source spin \<open>s \<in> {+1, -1}\<close> of \<open>pairwise(s, s', J, beta) * field(s, h, beta) * P(s)\<close>,
  with \<open>pairwise(x1, x2, J, beta) = exp(beta*J*x1*x2)\<close>, \<open>field(x, h, beta) = exp(beta*h*x)\<close>,
  \<open>P(+1) = mu_up\<close> and \<open>P(-1) = 1 - mu_up\<close>.
\<close>

definition spec_pairwise :: "int \<Rightarrow> int \<Rightarrow> real \<Rightarrow> real \<Rightarrow> real" where
  "spec_pairwise x1 x2 J beta = exp (beta * J * real_of_int x1 * real_of_int x2)"

definition spec_field :: "int \<Rightarrow> real \<Rightarrow> real \<Rightarrow> real" where
  "spec_field x h beta = exp (beta * h * real_of_int x)"

definition spec_P :: "real \<Rightarrow> int \<Rightarrow> real" where
  "spec_P mu_up s = (if s = 1 then mu_up else 1 - mu_up)"

definition spec_unnormalised :: "real \<Rightarrow> real \<Rightarrow> real \<Rightarrow> real \<Rightarrow> int \<Rightarrow> real" where
  "spec_unnormalised beta J h mu_up s' =
     (\<Sum>s \<leftarrow> [1, - 1]. spec_pairwise s s' J beta * spec_field s h beta * spec_P mu_up s)"

section \<open>The same functions on double-precision values\<close>

text \<open>
  The values of the source are numpy doubles. A double is a finite number, one of the
  two infinities or nan. The type below has these four kinds, and its operations follow
  the rules of IEEE arithmetic for them: a finite result beyond the largest double
  becomes an infinity, \<open>inf - inf\<close>, \<open>0 * inf\<close>, \<open>inf / inf\<close> and \<open>0 / 0\<close> are nan, nan
  propagates, a finite number over an infinity is \<open>0\<close>, and no operation raises. The
  rounding of finite results and the sign of zero are not modelled: a finite result
  within range is the exact one. The properties proved on this model do not depend on
  that; they are about which results are nan, infinite, or within bounds.
\<close>

datatype float64 = Fin real | PInf | NInf | NaN

definition float_max :: real where
  \<comment> \<open>the largest finite double\<close>
  "float_max = (2 - 1 / 2 ^ 52) * 2 ^ 1023"

definition float_tiny :: real where
  \<comment> \<open>half of the smallest positive double: a smaller positive result rounds to \<open>0\<close>\<close>
  "float_tiny = 1 / 2 ^ 1075"

definition fin :: "real \<Rightarrow> float64" where
  "fin r = (if float_max < r then PInf else if r < - float_max then NInf else Fin r)"

fun fmul :: "float64 \<Rightarrow> float64 \<Rightarrow> float64" where
  "fmul NaN y = NaN"
| "fmul x NaN = NaN"
| "fmul (Fin a) (Fin b) = fin (a * b)"
| "fmul (Fin a) PInf = (if a = 0 then NaN else if 0 < a then PInf else NInf)"
| "fmul (Fin a) NInf = (if a = 0 then NaN else if 0 < a then NInf else PInf)"
| "fmul PInf (Fin b) = (if b = 0 then NaN else if 0 < b then PInf else NInf)"
| "fmul NInf (Fin b) = (if b = 0 then NaN else if 0 < b then NInf else PInf)"
| "fmul PInf PInf = PInf"
| "fmul PInf NInf = NInf"
| "fmul NInf PInf = NInf"
| "fmul NInf NInf = PInf"

fun fadd :: "float64 \<Rightarrow> float64 \<Rightarrow> float64" where
  "fadd NaN y = NaN"
| "fadd x NaN = NaN"
| "fadd (Fin a) (Fin b) = fin (a + b)"
| "fadd (Fin a) PInf = PInf"
| "fadd (Fin a) NInf = NInf"
| "fadd PInf (Fin b) = PInf"
| "fadd NInf (Fin b) = NInf"
| "fadd PInf PInf = PInf"
| "fadd NInf NInf = NInf"
| "fadd PInf NInf = NaN"
| "fadd NInf PInf = NaN"

fun fneg :: "float64 \<Rightarrow> float64" where
  "fneg NaN = NaN"
| "fneg (Fin a) = Fin (- a)"
| "fneg PInf = NInf"
| "fneg NInf = PInf"

definition fsub :: "float64 \<Rightarrow> float64 \<Rightarrow> float64" where
  "fsub x y = fadd x (fneg y)"

fun fdiv :: "float64 \<Rightarrow> float64 \<Rightarrow> float64" where
  "fdiv NaN y = NaN"
| "fdiv x NaN = NaN"
| "fdiv (Fin a) (Fin b) =
     (if b = 0 then (if a = 0 then NaN else if 0 < a then PInf else NInf) else fin (a / b))"
| "fdiv (Fin a) PInf = Fin 0"
| "fdiv (Fin a) NInf = Fin 0"
| "fdiv PInf (Fin b) = (if b < 0 then NInf else PInf)"
| "fdiv NInf (Fin b) = (if b < 0 then PInf else NInf)"
| "fdiv PInf PInf = NaN"
| "fdiv PInf NInf = NaN"
| "fdiv NInf PInf = NaN"
| "fdiv NInf NInf = NaN"

fun np_exp :: "float64 \<Rightarrow> float64" where
  \<comment> \<open>\<^verbatim>\<open>np.exp\<close>: overflows to \<open>inf\<close>, underflows to \<open>0\<close>\<close>
  "np_exp NaN = NaN"
| "np_exp PInf = PInf"
| "np_exp NInf = Fin 0"
| "np_exp (Fin x) =
     (if float_max < exp x then PInf else if exp x < float_tiny then Fin 0 else Fin (exp x))"

definition float_of_int :: "int \<Rightarrow> float64" where
  \<comment> \<open>\<^verbatim>\<open>float(x)\<close>, and the conversion of an \<^verbatim>\<open>int\<close> operand of a product; the spins are \<open>\<plusminus>1\<close>\<close>
  "float_of_int x = Fin (real_of_int x)"

definition phi_interaction64 :: "int \<Rightarrow> int \<Rightarrow> float64 \<Rightarrow> float64 \<Rightarrow> float64" where
  \<comment> \<open>\<^verbatim>\<open>np.exp(beta*J*float(x_1)*float(x_2))\<close>\<close>
  "phi_interaction64 x_1 x_2 J beta =
     np_exp (fmul (fmul (fmul beta J) (float_of_int x_1)) (float_of_int x_2))"

definition phi_field64 :: "int \<Rightarrow> float64 \<Rightarrow> float64 \<Rightarrow> float64" where
  \<comment> \<open>\<^verbatim>\<open>np.exp(beta*h*x_1)\<close>\<close>
  "phi_field64 x_1 h beta = np_exp (fmul (fmul beta h) (float_of_int x_1))"

definition tmp_up64 :: "float64 \<Rightarrow> float64 \<Rightarrow> float64 \<Rightarrow> float64 \<Rightarrow> float64" where
  "tmp_up64 beta jj hh mu_up =
     fadd (fmul (fmul (phi_interaction64 SU SU jj beta) (phi_field64 SU hh beta)) mu_up)
          (fmul (fmul (phi_interaction64 SU SD jj beta) (phi_field64 SD hh beta))
             (fsub (Fin 1) mu_up))"

definition tmp_dw64 :: "float64 \<Rightarrow> float64 \<Rightarrow> float64 \<Rightarrow> float64 \<Rightarrow> float64" where
  "tmp_dw64 beta jj hh mu_up =
     fadd (fmul (fmul (phi_interaction64 SD SU jj beta) (phi_field64 SU hh beta)) mu_up)
          (fmul (fmul (phi_interaction64 SD SD jj beta) (phi_field64 SD hh beta))
             (fsub (Fin 1) mu_up))"

definition propagate_message64 :: "float64 \<Rightarrow> float64 \<Rightarrow> float64 \<Rightarrow> float64 \<Rightarrow> float64" where
  "propagate_message64 beta jj hh mu_up =
     fdiv (tmp_up64 beta jj hh mu_up)
          (fadd (tmp_up64 beta jj hh mu_up) (tmp_dw64 beta jj hh mu_up))"

fun chain_loop64 ::
  "float64 \<Rightarrow> (float64 \<times> float64) list \<Rightarrow> float64 list \<Rightarrow> float64 \<Rightarrow> float64 list" where
  "chain_loop64 beta [] messages_output message_previous = messages_output"
| "chain_loop64 beta ((jj, hh) # rest) messages_output message_previous =
     (let message_next = propagate_message64 beta jj hh message_previous
      in chain_loop64 beta rest (messages_output @ [message_next]) message_next)"

definition propagate_messages_chain64 ::
  "float64 \<Rightarrow> float64 list \<Rightarrow> float64 list \<Rightarrow> float64 \<Rightarrow> string \<Rightarrow> error + float64 list" where
  "propagate_messages_chain64 beta coupling field message_start direction =
     (if int (length coupling) \<noteq> int (length field) - 1 then Inl ValueError
      else if direction \<notin> set [''left'', ''right''] then Inl ValueError
      else
        let j_h_list =
              (if direction = ''left'' then zip coupling (slice_drop_last field)
               else zip (slice_reversed coupling) (slice_from_m2_reversed field));
            messages_output = chain_loop64 beta j_h_list [message_start] message_start
        in Inr (if direction = ''right'' then rev messages_output else messages_output))"

definition lf_up64 :: "float64 \<Rightarrow> float64 list \<Rightarrow> float64 list" where
  "lf_up64 beta field = map (\<lambda>hh. np_exp (fmul (fmul beta hh) (float_of_int SU))) field"

definition lf_dw64 :: "float64 \<Rightarrow> float64 list \<Rightarrow> float64 list" where
  "lf_dw64 beta field = map (\<lambda>hh. np_exp (fmul (fmul beta hh) (float_of_int SD))) field"

definition mu_up_non64 :: "float64 list \<Rightarrow> float64 list \<Rightarrow> float64 list \<Rightarrow> float64 list" where
  "mu_up_non64 mu_left lfs mu_right =
     map (\<lambda>(ml, lf, mr). fmul (fmul ml lf) mr) (zip mu_left (zip lfs mu_right))"

definition mu_dw_non64 :: "float64 list \<Rightarrow> float64 list \<Rightarrow> float64 list \<Rightarrow> float64 list" where
  "mu_dw_non64 mu_left lfs mu_right =
     map (\<lambda>(ml, lf, mr). fmul (fmul (fsub (Fin 1) ml) lf) (fsub (Fin 1) mr))
       (zip mu_left (zip lfs mu_right))"

definition marginals_list64 :: "float64 list \<Rightarrow> float64 list \<Rightarrow> float64 list" where
  "marginals_list64 ups dws =
     map (\<lambda>(mu_up, mu_dw). fdiv mu_up (fadd mu_up mu_dw)) (zip ups dws)"

definition marginals64 :: "float64 \<Rightarrow> float64 list \<Rightarrow> float64 list \<Rightarrow> error + float64 list" where
  "marginals64 beta coupling field =
     (if int (length coupling) \<noteq> int (length field) - 1 then Inl ValueError
      else
        let message_start = Fin (1 / 2) in
        case propagate_messages_chain64 beta coupling field message_start ''left'' of
          Inl e \<Rightarrow> Inl e
        | Inr mu_left \<Rightarrow>
            (case propagate_messages_chain64 beta coupling field message_start ''right'' of
               Inl e \<Rightarrow> Inl e
             | Inr mu_right \<Rightarrow>
                 Inr (marginals_list64 (mu_up_non64 mu_left (lf_up64 beta field) mu_right)
                        (mu_dw_non64 mu_left (lf_dw64 beta field) mu_right))))"

text \<open>
  The list of messages the loop produces, without the accumulator, and the two sets of
  values the computation stays in: a message is nan or a number in \<open>[0, 1]\<close>, an
  unnormalised term is nan, \<open>+inf\<close> or a number that is not negative.
\<close>

fun messages_from64 :: "float64 \<Rightarrow> (float64 \<times> float64) list \<Rightarrow> float64 \<Rightarrow> float64 list" where
  "messages_from64 beta [] m = [m]"
| "messages_from64 beta ((jj, hh) # rest) m =
     m # messages_from64 beta rest (propagate_message64 beta jj hh m)"

fun nan_or_unit :: "float64 \<Rightarrow> bool" where
  "nan_or_unit NaN = True"
| "nan_or_unit (Fin r) = (0 \<le> r \<and> r \<le> 1)"
| "nan_or_unit PInf = False"
| "nan_or_unit NInf = False"

fun nan_or_nonneg :: "float64 \<Rightarrow> bool" where
  "nan_or_nonneg NaN = True"
| "nan_or_nonneg (Fin r) = (0 \<le> r)"
| "nan_or_nonneg PInf = True"
| "nan_or_nonneg NInf = False"

section \<open>The slices\<close>

lemma slice_drop_last_butlast: "slice_drop_last xs = butlast xs"
  by (simp add: slice_drop_last_def butlast_conv_take)

lemma slice_from_m2_reversed_butlast: "slice_from_m2_reversed xs = rev (butlast xs)"
proof -
  have "map (\<lambda>i. xs ! i) [0 ..< length xs - 1] = take (length xs - 1) xs"
    by (rule nth_equalityI) simp_all
  then show ?thesis
    by (simp add: slice_from_m2_reversed_def rev_map [symmetric] butlast_conv_take)
qed

section \<open>The loop\<close>

lemma length_chain_loop:
  "length (chain_loop beta jhs out prev) = length out + length jhs"
  by (induction beta jhs out prev rule: chain_loop.induct) (simp_all add: Let_def)

lemma length_propagate_messages_chain:
  assumes "propagate_messages_chain beta coupling field start direction = Inr ms"
  shows "length ms = length field"
proof -
  from assms have len: "int (length coupling) = int (length field) - 1"
    and dir: "direction = ''left'' \<or> direction = ''right''"
    by (auto simp: propagate_messages_chain_def split: if_splits)
  from len have "length field = Suc (length coupling)" by linarith
  with assms dir show ?thesis
    by (auto simp: propagate_messages_chain_def Let_def length_chain_loop
        slice_drop_last_butlast slice_from_m2_reversed_butlast slice_reversed_def
        split: if_splits)
qed

lemma chain_loop_messages_from:
  "chain_loop beta jhs (out @ [prev]) prev = out @ messages_from beta jhs prev"
proof (induction jhs arbitrary: out prev)
  case Nil
  show ?case by simp
next
  case (Cons p jhs)
  obtain jj hh where p: "p = (jj, hh)" by (cases p)
  have "chain_loop beta (p # jhs) (out @ [prev]) prev =
        chain_loop beta jhs ((out @ [prev]) @ [propagate_message beta jj hh prev])
          (propagate_message beta jj hh prev)"
    by (simp add: p Let_def)
  also have "\<dots> = (out @ [prev]) @ messages_from beta jhs (propagate_message beta jj hh prev)"
    by (rule Cons.IH)
  finally show ?case by (simp add: p)
qed

lemma length_messages_from: "length (messages_from beta jhs m) = Suc (length jhs)"
  by (induction beta jhs m rule: messages_from.induct) simp_all

lemma propagate_messages_chain_left:
  assumes "int (length coupling) = int (length field) - 1"
  shows "propagate_messages_chain beta coupling field start ''left'' =
         Inr (messages_from beta (zip coupling (butlast field)) start)"
  using assms chain_loop_messages_from [of beta _ "[]" start]
  by (simp add: propagate_messages_chain_def slice_drop_last_butlast)

lemma propagate_messages_chain_right:
  assumes "int (length coupling) = int (length field) - 1"
  shows "propagate_messages_chain beta coupling field start ''right'' =
         Inr (rev (messages_from beta (zip (rev coupling) (rev (butlast field))) start))"
  using assms chain_loop_messages_from [of beta _ "[]" start]
  by (simp add: propagate_messages_chain_def slice_reversed_def slice_from_m2_reversed_butlast)

lemma marginals_valid:
  assumes "int (length coupling) = int (length field) - 1"
  shows "marginals beta coupling field =
         Inr (marginals_list
               (mu_up_non (messages_from beta (zip coupling (butlast field)) (1 / 2))
                  (lf_up beta field)
                  (rev (messages_from beta (zip (rev coupling) (rev (butlast field))) (1 / 2))))
               (mu_dw_non (messages_from beta (zip coupling (butlast field)) (1 / 2))
                  (lf_dw beta field)
                  (rev (messages_from beta (zip (rev coupling) (rev (butlast field))) (1 / 2)))))"
  using assms
  by (simp add: marginals_def Let_def propagate_messages_chain_left
      propagate_messages_chain_right)

lemma length_marginals_list:
  "length (marginals_list (mu_up_non L ups R) (mu_dw_non L dws R)) =
   min (length L) (min (min (length ups) (length dws)) (length R))"
  by (simp add: marginals_list_def mu_up_non_def mu_dw_non_def)

section \<open>Positivity of the normalisation terms\<close>

lemma tmp_up_expand:
  "tmp_up beta jj hh m =
   exp (beta * jj) * exp (beta * hh) * m + exp (- (beta * jj)) * exp (- (beta * hh)) * (1 - m)"
  by (simp add: tmp_up_def phi_interaction_def phi_field_def SU_def SD_def)

lemma tmp_dw_expand:
  "tmp_dw beta jj hh m =
   exp (- (beta * jj)) * exp (beta * hh) * m + exp (beta * jj) * exp (- (beta * hh)) * (1 - m)"
  by (simp add: tmp_dw_def phi_interaction_def phi_field_def SU_def SD_def)

lemma mixture_pos:
  fixes a b m :: real
  assumes "0 < a" "0 < b" "0 \<le> m" "m \<le> 1"
  shows "0 < a * m + b * (1 - m)"
proof (cases "m = 0")
  case True
  with assms show ?thesis by simp
next
  case False
  with assms have "0 < a * m" "0 \<le> b * (1 - m)" by simp_all
  then show ?thesis by (rule add_pos_nonneg)
qed

lemma tmp_up_pos: "0 \<le> m \<Longrightarrow> m \<le> 1 \<Longrightarrow> 0 < tmp_up beta jj hh m"
  unfolding tmp_up_expand by (rule mixture_pos) simp_all

lemma tmp_dw_pos: "0 \<le> m \<Longrightarrow> m \<le> 1 \<Longrightarrow> 0 < tmp_dw beta jj hh m"
  unfolding tmp_dw_expand by (rule mixture_pos) simp_all

section \<open>Chains on which every message stays at one half\<close>

lemma half_ratio:
  fixes a :: real
  assumes "0 < a"
  shows "a / (a + a) = 1 / 2"
  using assms by (simp add: field_simps)

lemma propagate_message_zero_field: "propagate_message beta jj 0 (1 / 2) = 1 / 2"
proof -
  have eq: "tmp_dw beta jj 0 (1 / 2) = tmp_up beta jj 0 (1 / 2)"
    by (simp add: tmp_up_expand tmp_dw_expand)
  have "0 < tmp_up beta jj 0 (1 / 2)" by (rule tmp_up_pos) simp_all
  then show ?thesis
    unfolding propagate_message_def eq by (rule half_ratio)
qed

section \<open>Which pair each update uses\<close>

lemma messages_from_nth_0: "messages_from beta jhs m ! 0 = m"
  by (cases jhs) auto

lemma messages_from_nth_Suc:
  assumes "i < length jhs"
  shows "messages_from beta jhs m ! Suc i =
         propagate_message beta (fst (jhs ! i)) (snd (jhs ! i)) (messages_from beta jhs m ! i)"
  using assms
proof (induction beta jhs m arbitrary: i rule: messages_from.induct)
  case (1 beta m)
  then show ?case by simp
next
  case (2 beta jj hh rest m)
  show ?case
  proof (cases i)
    case 0
    then show ?thesis by (simp add: messages_from_nth_0)
  next
    case (Suc k)
    with "2.prems" have "k < length rest" by simp
    from "2.IH" [OF this] show ?thesis by (simp add: Suc)
  qed
qed

lemma chain_left_structure:
  assumes "int (length coupling) = int (length field) - 1"
  shows "\<exists>ms. propagate_messages_chain beta coupling field start ''left'' = Inr ms \<and>
           length ms = length field \<and> ms ! 0 = start \<and>
           (\<forall>i < length coupling.
              ms ! Suc i = propagate_message beta (coupling ! i) (field ! i) (ms ! i))"
proof -
  from assms have n: "length field = Suc (length coupling)" by linarith
  define jhs where "jhs = zip coupling (butlast field)"
  have len: "length jhs = length coupling" by (simp add: jhs_def n)
  have "messages_from beta jhs start ! Suc i =
        propagate_message beta (coupling ! i) (field ! i) (messages_from beta jhs start ! i)"
    if "i < length coupling" for i
    using that messages_from_nth_Suc [of i jhs beta start]
    by (simp add: len) (simp add: jhs_def n nth_butlast)
  then show ?thesis
    unfolding propagate_messages_chain_left [OF assms] jhs_def [symmetric]
    by (simp add: length_messages_from len n messages_from_nth_0)
qed

text \<open>
  In the right direction the update that produces the message at index \<open>i\<close> takes the
  message at index \<open>i + 1\<close> and the pair \<open>(coupling[i], field[i])\<close>: counted from the
  right, step \<open>k\<close> pairs \<open>coupling[N-2-k]\<close> with \<open>field[N-2-k]\<close>.
\<close>

lemma chain_right_structure:
  assumes "int (length coupling) = int (length field) - 1"
  shows "\<exists>ms. propagate_messages_chain beta coupling field start ''right'' = Inr ms \<and>
           length ms = length field \<and> ms ! (length field - 1) = start \<and>
           (\<forall>i < length coupling.
              ms ! i = propagate_message beta (coupling ! i) (field ! i) (ms ! Suc i))"
proof -
  from assms have n: "length field = Suc (length coupling)" by linarith
  define jhs where "jhs = zip (rev coupling) (rev (butlast field))"
  define raw where "raw = messages_from beta jhs start"
  have len: "length jhs = length coupling" by (simp add: jhs_def n)
  have lraw: "length raw = Suc (length coupling)"
    by (simp add: raw_def length_messages_from len)
  have "rev raw ! i = propagate_message beta (coupling ! i) (field ! i) (rev raw ! Suc i)"
    if i: "i < length coupling" for i
  proof -
    define k where "k = length coupling - Suc i"
    from i have k: "k < length coupling" "length coupling - Suc k = i"
      "length coupling - k = Suc i"
      by (simp_all add: k_def)
    from i have "rev raw ! i = raw ! Suc k"
      by (simp add: rev_nth lraw k_def Suc_diff_Suc)
    also from k have "\<dots> = propagate_message beta (fst (jhs ! k)) (snd (jhs ! k)) (raw ! k)"
      unfolding raw_def by (intro messages_from_nth_Suc) (simp add: len)
    also from k have "jhs ! k = (coupling ! i, field ! i)"
      by (simp add: jhs_def n rev_nth nth_butlast)
    also from i have "raw ! k = rev raw ! Suc i"
      by (simp add: rev_nth lraw k_def)
    finally show ?thesis by simp
  qed
  moreover have "rev raw ! (length field - 1) = start"
  proof -
    have "rev raw ! (length field - 1) = raw ! 0"
      by (simp add: rev_nth lraw n)
    then show ?thesis by (simp add: raw_def messages_from_nth_0)
  qed
  ultimately show ?thesis
    unfolding propagate_messages_chain_right [OF assms] jhs_def [symmetric] raw_def [symmetric]
    by (simp add: lraw n)
qed

lemma propagate_message_ln2: "propagate_message 1 (ln 2) (ln 2) (1 / 2) = 17 / 25"
  by (simp add: propagate_message_def tmp_up_expand tmp_dw_expand exp_minus)

section \<open>The computation on doubles\<close>

lemma chain_loop64_messages_from64:
  "chain_loop64 beta jhs (out @ [prev]) prev = out @ messages_from64 beta jhs prev"
proof (induction jhs arbitrary: out prev)
  case Nil
  show ?case by simp
next
  case (Cons p jhs)
  obtain jj hh where p: "p = (jj, hh)" by (cases p)
  have "chain_loop64 beta (p # jhs) (out @ [prev]) prev =
        chain_loop64 beta jhs ((out @ [prev]) @ [propagate_message64 beta jj hh prev])
          (propagate_message64 beta jj hh prev)"
    by (simp add: p Let_def)
  also have "\<dots> = (out @ [prev]) @ messages_from64 beta jhs (propagate_message64 beta jj hh prev)"
    by (rule Cons.IH)
  finally show ?case by (simp add: p)
qed


lemma propagate_messages_chain64_left:
  assumes "int (length coupling) = int (length field) - 1"
  shows "propagate_messages_chain64 beta coupling field start ''left'' =
         Inr (messages_from64 beta (zip coupling (butlast field)) start)"
  using assms chain_loop64_messages_from64 [of beta _ "[]" start]
  by (simp add: propagate_messages_chain64_def slice_drop_last_butlast)

lemma propagate_messages_chain64_right:
  assumes "int (length coupling) = int (length field) - 1"
  shows "propagate_messages_chain64 beta coupling field start ''right'' =
         Inr (rev (messages_from64 beta (zip (rev coupling) (rev (butlast field))) start))"
  using assms chain_loop64_messages_from64 [of beta _ "[]" start]
  by (simp add: propagate_messages_chain64_def slice_reversed_def
      slice_from_m2_reversed_butlast)

lemma marginals64_valid:
  assumes "int (length coupling) = int (length field) - 1"
  shows "marginals64 beta coupling field =
         Inr (marginals_list64
               (mu_up_non64 (messages_from64 beta (zip coupling (butlast field)) (Fin (1 / 2)))
                  (lf_up64 beta field)
                  (rev (messages_from64 beta (zip (rev coupling) (rev (butlast field)))
                     (Fin (1 / 2)))))
               (mu_dw_non64 (messages_from64 beta (zip coupling (butlast field)) (Fin (1 / 2)))
                  (lf_dw64 beta field)
                  (rev (messages_from64 beta (zip (rev coupling) (rev (butlast field)))
                     (Fin (1 / 2))))))"
  using assms
  by (simp add: marginals64_def Let_def propagate_messages_chain64_left
      propagate_messages_chain64_right)


subsection \<open>The values stay nan, infinite or within bounds\<close>

lemma float_max_ge_1: "1 \<le> float_max"
proof -
  have "(1 :: real) \<le> 1 * 2 ^ 1023" by simp
  also have "\<dots> \<le> (2 - 1 / 2 ^ 52) * 2 ^ 1023"
    by (intro mult_right_mono) (simp_all add: field_simps)
  finally show ?thesis by (simp add: float_max_def)
qed

lemma fin_in_range: "\<bar>r\<bar> \<le> float_max \<Longrightarrow> fin r = Fin r"
  by (auto simp: fin_def)

lemma fin_unit: "0 \<le> r \<Longrightarrow> r \<le> 1 \<Longrightarrow> fin r = Fin r"
  using float_max_ge_1 by (intro fin_in_range) simp

lemma nan_or_nonneg_fin: "0 \<le> r \<Longrightarrow> nan_or_nonneg (fin r)"
  using float_max_ge_1 by (simp add: fin_def)

lemma nan_or_unit_nonneg: "nan_or_unit x \<Longrightarrow> nan_or_nonneg x"
  by (cases x) simp_all

lemma nan_or_nonneg_np_exp: "nan_or_nonneg (np_exp x)"
  by (cases x) simp_all

lemma nan_or_nonneg_fmul:
  "nan_or_nonneg x \<Longrightarrow> nan_or_nonneg y \<Longrightarrow> nan_or_nonneg (fmul x y)"
  by (cases x; cases y) (auto simp: nan_or_nonneg_fin)

lemma nan_or_nonneg_fadd:
  "nan_or_nonneg x \<Longrightarrow> nan_or_nonneg y \<Longrightarrow> nan_or_nonneg (fadd x y)"
  by (cases x; cases y) (auto simp: nan_or_nonneg_fin)

lemma nan_or_unit_one_minus: "nan_or_unit m \<Longrightarrow> nan_or_unit (fsub (Fin 1) m)"
  by (cases m) (auto simp: fsub_def fin_unit)

lemma nan_or_unit_fdiv:
  assumes "nan_or_nonneg a" "nan_or_nonneg c"
  shows "nan_or_unit (fdiv a (fadd a c))"
proof (cases a)
  case (Fin x)
  with assms have x: "0 \<le> x" by simp
  show ?thesis
  proof (cases c)
    case (Fin z)
    with assms have z: "0 \<le> z" by simp
    show ?thesis
    proof (cases "float_max < x + z")
      case True
      then show ?thesis by (simp add: \<open>a = Fin x\<close> \<open>c = Fin z\<close> fin_def)
    next
      case False
      with x z float_max_ge_1 have s: "fin (x + z) = Fin (x + z)"
        by (intro fin_in_range) simp
      show ?thesis
      proof (cases "x + z = 0")
        case True
        with x z have x0: "x = 0" "z = 0" by simp_all
        have "fin 0 = Fin 0" by (simp add: fin_unit)
        then show ?thesis by (simp add: \<open>a = Fin x\<close> \<open>c = Fin z\<close> x0)
      next
        case False
        with x z have q: "0 \<le> x / (x + z)" "x / (x + z) \<le> 1"
          by (simp_all add: field_simps)
        with False show ?thesis
          by (simp add: \<open>a = Fin x\<close> \<open>c = Fin z\<close> s fin_unit)
      qed
    qed
  qed (use assms Fin in simp_all)
next
  case PInf
  with assms show ?thesis by (cases c) simp_all
next
  case NInf
  with assms show ?thesis by simp
next
  case NaN
  then show ?thesis by simp
qed

lemma nan_or_nonneg_tmp_up64:
  "nan_or_unit m \<Longrightarrow> nan_or_nonneg (tmp_up64 beta jj hh m)"
  unfolding tmp_up64_def phi_interaction64_def phi_field64_def
  by (intro nan_or_nonneg_fadd nan_or_nonneg_fmul nan_or_nonneg_np_exp
      nan_or_unit_nonneg nan_or_unit_one_minus)

lemma nan_or_nonneg_tmp_dw64:
  "nan_or_unit m \<Longrightarrow> nan_or_nonneg (tmp_dw64 beta jj hh m)"
  unfolding tmp_dw64_def phi_interaction64_def phi_field64_def
  by (intro nan_or_nonneg_fadd nan_or_nonneg_fmul nan_or_nonneg_np_exp
      nan_or_unit_nonneg nan_or_unit_one_minus)

lemma nan_or_unit_propagate_message64:
  "nan_or_unit m \<Longrightarrow> nan_or_unit (propagate_message64 beta jj hh m)"
  unfolding propagate_message64_def
  by (intro nan_or_unit_fdiv nan_or_nonneg_tmp_up64 nan_or_nonneg_tmp_dw64)

lemma nan_or_unit_messages_from64:
  assumes "nan_or_unit m" "x \<in> set (messages_from64 beta jhs m)"
  shows "nan_or_unit x"
  using assms
proof (induction beta jhs m rule: messages_from64.induct)
  case (1 beta m)
  then show ?case by simp
next
  case (2 beta jj hh rest m)
  from "2.prems" consider "x = m"
    | "x \<in> set (messages_from64 beta rest (propagate_message64 beta jj hh m))" by auto
  then show ?case
  proof cases
    case 1
    with "2.prems" show ?thesis by simp
  next
    case 2
    with "2.IH" nan_or_unit_propagate_message64 [OF "2.prems"(1)] show ?thesis by blast
  qed
qed

lemma nan_or_unit_marginals_list64:
  assumes L: "\<And>ml. ml \<in> set L \<Longrightarrow> nan_or_unit ml"
    and R: "\<And>mr. mr \<in> set R \<Longrightarrow> nan_or_unit mr"
    and x: "x \<in> set (marginals_list64 (mu_up_non64 L (lf_up64 beta field) R)
                      (mu_dw_non64 L (lf_dw64 beta field) R))"
  shows "nan_or_unit x"
proof -
  define us where "us = mu_up_non64 L (lf_up64 beta field) R"
  define ds where "ds = mu_dw_non64 L (lf_dw64 beta field) R"
  from x obtain i where i: "i < length us" "i < length ds"
    and xi: "x = fdiv (us ! i) (fadd (us ! i) (ds ! i))"
    by (auto simp: marginals_list64_def us_def ds_def in_set_zip)
  from i have b: "i < length L" "i < length R" "i < length field"
    by (simp_all add: us_def ds_def mu_up_non64_def mu_dw_non64_def lf_up64_def lf_dw64_def)
  then have l: "nan_or_unit (L ! i)" and r: "nan_or_unit (R ! i)"
    using L R nth_mem by blast+
  from b have "us ! i = fmul (fmul (L ! i) (np_exp (fmul (fmul beta (field ! i)) (float_of_int SU)))) (R ! i)"
    by (simp add: us_def mu_up_non64_def lf_up64_def)
  with l r have u: "nan_or_nonneg (us ! i)"
    by (simp add: nan_or_nonneg_fmul nan_or_nonneg_np_exp nan_or_unit_nonneg)
  from b have "ds ! i = fmul (fmul (fsub (Fin 1) (L ! i))
      (np_exp (fmul (fmul beta (field ! i)) (float_of_int SD)))) (fsub (Fin 1) (R ! i))"
    by (simp add: ds_def mu_dw_non64_def lf_dw64_def)
  with l r have d: "nan_or_nonneg (ds ! i)"
    by (simp add: nan_or_nonneg_fmul nan_or_nonneg_np_exp nan_or_unit_nonneg
        nan_or_unit_one_minus)
  from nan_or_unit_fdiv [OF u d] show ?thesis by (simp add: xi)
qed

subsection \<open>Where the exponential overflows, and where it does not\<close>

lemma exp_1_ge: "9 / 4 \<le> exp (1 :: real)"
  using exp_ge_one_plus_x_over_n_power_n [of 2 "1 :: real"] by (simp add: power2_eq_square)

lemma exp_1000_ge: "(9 / 4) ^ 1000 \<le> exp (1000 :: real)"
proof -
  have "exp (1000 :: real) = exp 1 ^ 1000"
    using exp_of_nat_mult [of 1000 "1 :: real"] by simp
  with exp_1_ge show ?thesis by (simp add: power_mono)
qed

lemma float_max_less: "float_max < (9 / 4) ^ 1000"
proof -
  have "float_max < 2 ^ 1024"
  proof -
    have "(2 - 1 / 2 ^ 52) * 2 ^ 1023 < (2 :: real) * 2 ^ 1023"
      by (intro mult_strict_right_mono) simp_all
    then show ?thesis by (simp add: float_max_def)
  qed
  also have "(2 :: real) ^ 1024 \<le> (9 / 4) ^ 1000"
  proof -
    have "(2 :: real) ^ 1024 = (2 ^ 128) ^ 8" by (simp add: power_mult [symmetric])
    also have "\<dots> \<le> ((9 / 4) ^ 125) ^ 8"
      by (intro power_mono) (simp_all add: power_divide)
    also have "\<dots> = (9 / 4) ^ 1000" by (simp add: power_mult [symmetric])
    finally show ?thesis .
  qed
  finally show ?thesis .
qed

lemma exp_1000_overflows: "float_max < exp (1000 :: real)"
  using float_max_less exp_1000_ge by (rule less_le_trans)

lemma exp_m1000_underflows: "exp (- 1000 :: real) < float_tiny"
proof -
  have "(2 :: real) ^ 1075 < 2 ^ 1120" by (intro power_strict_increasing) simp_all
  also have "(2 :: real) ^ 1120 \<le> (9 / 4) ^ 1000"
  proof -
    have "(2 :: real) ^ 1120 = (2 ^ 140) ^ 8" by (simp add: power_mult [symmetric])
    also have "\<dots> \<le> ((9 / 4) ^ 125) ^ 8"
      by (intro power_mono) (simp_all add: power_divide)
    also have "\<dots> = (9 / 4) ^ 1000" by (simp add: power_mult [symmetric])
    finally show ?thesis .
  qed
  finally have "(2 :: real) ^ 1075 < exp 1000" using exp_1000_ge by (rule less_le_trans)
  then have "1 / exp (1000 :: real) < 1 / 2 ^ 1075"
    by (intro divide_strict_left_mono) simp_all
  then show ?thesis by (simp add: float_tiny_def exp_minus inverse_eq_divide)
qed

lemma np_exp_1000: "np_exp (Fin 1000) = PInf"
  using exp_1000_overflows by simp

lemma np_exp_m1000: "np_exp (Fin (- 1000)) = Fin 0"
proof -
  have "exp (- 1000 :: real) \<le> 1" by simp
  with float_max_ge_1 have "\<not> float_max < exp (- 1000 :: real)" by linarith
  with exp_m1000_underflows show ?thesis by simp
qed

lemma np_exp_0: "np_exp (Fin 0) = Fin 1"
  using float_max_ge_1 by (simp add: float_tiny_def)

lemma fin_1000: "\<bar>r\<bar> \<le> 1000 \<Longrightarrow> fin r = Fin r"
proof (rule fin_in_range)
  assume "\<bar>r\<bar> \<le> 1000"
  moreover have "(1000 :: real) \<le> float_max"
  proof -
    have "(1000 :: real) \<le> 1 * 2 ^ 10" by simp
    also have "\<dots> \<le> 1 * 2 ^ 1023" by (intro mult_left_mono power_increasing) simp_all
    also have "\<dots> \<le> (2 - 1 / 2 ^ 52) * 2 ^ 1023"
      by (intro mult_right_mono) (simp_all add: field_simps)
    finally show ?thesis by (simp add: float_max_def)
  qed
  ultimately show "\<bar>r\<bar> \<le> float_max" by simp
qed

lemma pow3_600_le: "(3 :: real) ^ 600 \<le> 2 ^ 952"
proof -
  have e: "(600 :: nat) = 75 * 8" and f: "(952 :: nat) = 119 * 8" by simp_all
  have "(3 :: real) ^ 75 \<le> 2 ^ 119" by simp
  then have "((3 :: real) ^ 75) ^ 8 \<le> (2 ^ 119) ^ 8" by (intro power_mono) simp_all
  then show ?thesis by (simp only: e f power_mult)
qed

lemma pow2_1023_le: "(2 :: real) ^ 1023 \<le> float_max"
proof -
  have "(1 :: real) * 2 ^ 1023 \<le> (2 - 1 / 2 ^ 52) * 2 ^ 1023"
    by (intro mult_right_mono) (simp_all add: field_simps)
  then show ?thesis by (simp add: float_max_def)
qed

lemma exp_moderate:
  assumes "\<bar>x\<bar> \<le> 600"
  shows "exp x \<le> float_max / 4" and "float_tiny \<le> exp x"
proof -
  have e600: "exp y \<le> (2 :: real) ^ 952" if "\<bar>y\<bar> \<le> 600" for y :: real
  proof -
    from that have "exp y \<le> exp (600 :: real)" by simp
    also have "exp (600 :: real) = exp 1 ^ 600"
      using exp_of_nat_mult [of 600 "1 :: real"] by simp
    also have "\<dots> \<le> 3 ^ 600" using exp_le by (intro power_mono) simp_all
    also have "\<dots> \<le> 2 ^ 952" by (rule pow3_600_le)
    finally show ?thesis .
  qed
  have "(4 :: real) * 2 ^ 952 = 2 ^ (2 + 952)" by (simp only: power_add) simp
  also have "\<dots> \<le> 2 ^ 1023" by (intro power_increasing) simp_all
  also note pow2_1023_le
  finally have "4 * (2 :: real) ^ 952 \<le> float_max" .
  with e600 [OF assms] show "exp x \<le> float_max / 4" by linarith
  from assms have "exp (- x) \<le> 2 ^ 952" by (intro e600) simp
  also have "\<dots> \<le> (2 :: real) ^ 1075" by (intro power_increasing) simp_all
  finally have "1 / 2 ^ 1075 \<le> 1 / exp (- x)"
    by (intro divide_left_mono) simp_all
  then show "float_tiny \<le> exp x"
    by (simp only: float_tiny_def exp_minus inverse_eq_divide) simp
qed

lemma float_max_pos: "0 < float_max"
  using float_max_ge_1 by linarith

lemma np_exp_moderate:
  assumes "\<bar>x\<bar> \<le> 600"
  shows "np_exp (Fin x) = Fin (exp x)"
proof -
  from exp_moderate [OF assms] float_max_pos
  have "\<not> float_max < exp x" "\<not> exp x < float_tiny" by linarith+
  then show ?thesis by simp
qed

lemma fin_600: "\<bar>r\<bar> \<le> 600 \<Longrightarrow> fin r = Fin r"
  by (intro fin_1000) simp

text \<open>
  Two exponentials of moderate size, mixed with weight one half each: the sum stays in
  range, and the quotient of two equal sums is exactly one half.
\<close>

lemma half_of_moderate:
  assumes "0 < p" "p \<le> float_max / 4" "0 < q" "q \<le> float_max / 4"
  shows "fadd (fmul (Fin p) (Fin (1 / 2))) (fmul (Fin q) (Fin (1 / 2))) = Fin (p / 2 + q / 2)"
    and "fdiv (Fin (p / 2 + q / 2)) (fadd (Fin (p / 2 + q / 2)) (Fin (q / 2 + p / 2)))
         = Fin (1 / 2)"
    and "fmul (Fin p) (Fin 1) = Fin p" and "fmul (Fin 1) (Fin p) = Fin p"
proof -
  from assms float_max_pos have b: "\<bar>p / 2\<bar> \<le> float_max" "\<bar>q / 2\<bar> \<le> float_max"
    "\<bar>p / 2 + q / 2\<bar> \<le> float_max" "\<bar>p\<bar> \<le> float_max"
    "\<bar>p / 2 + q / 2 + (q / 2 + p / 2)\<bar> \<le> float_max"
    by linarith+
  note f = b [THEN fin_in_range]
  from f show "fadd (fmul (Fin p) (Fin (1 / 2))) (fmul (Fin q) (Fin (1 / 2))) = Fin (p / 2 + q / 2)"
    and "fmul (Fin p) (Fin 1) = Fin p" and "fmul (Fin 1) (Fin p) = Fin p"
    by simp_all
  from assms have nz: "p / 2 + q / 2 + (q / 2 + p / 2) \<noteq> 0" by linarith
  from assms have q: "(p / 2 + q / 2) / (p / 2 + q / 2 + (q / 2 + p / 2)) = 1 / 2"
    by (simp add: field_simps)
  have h: "fin (1 / 2) = Fin (1 / 2)" by (intro fin_unit) simp_all
  have "fdiv (Fin (p / 2 + q / 2)) (fadd (Fin (p / 2 + q / 2)) (Fin (q / 2 + p / 2)))
      = fdiv (Fin (p / 2 + q / 2)) (Fin (p / 2 + q / 2 + (q / 2 + p / 2)))"
    by (simp only: fadd.simps f)
  also have "\<dots> = fin ((p / 2 + q / 2) / (p / 2 + q / 2 + (q / 2 + p / 2)))"
    using nz by (simp only: fdiv.simps if_False)
  also have "\<dots> = Fin (1 / 2)" by (simp only: q h)
  finally show "fdiv (Fin (p / 2 + q / 2)) (fadd (Fin (p / 2 + q / 2)) (Fin (q / 2 + p / 2)))
         = Fin (1 / 2)" .
qed

lemma one_minus_half: "fsub (Fin 1) (Fin (1 / 2)) = Fin (1 / 2)"
  by (simp add: fsub_def fin_unit)

lemma phi_field64_moderate:
  assumes "\<bar>b * x\<bar> \<le> 600"
  shows "phi_field64 SU (Fin x) (Fin b) = Fin (exp (b * x))"
    and "phi_field64 SD (Fin x) (Fin b) = Fin (exp (- (b * x)))"
  using assms
  by (simp_all add: phi_field64_def float_of_int_def SU_def SD_def fin_600 np_exp_moderate
      del: np_exp.simps)

lemma phi_interaction64_moderate:
  assumes "\<bar>b * j\<bar> \<le> 600"
  shows "phi_interaction64 SU SU (Fin j) (Fin b) = Fin (exp (b * j))"
    and "phi_interaction64 SD SD (Fin j) (Fin b) = Fin (exp (b * j))"
    and "phi_interaction64 SU SD (Fin j) (Fin b) = Fin (exp (- (b * j)))"
    and "phi_interaction64 SD SU (Fin j) (Fin b) = Fin (exp (- (b * j)))"
  using assms
  by (simp_all add: phi_interaction64_def float_of_int_def SU_def SD_def fin_600
      np_exp_moderate del: np_exp.simps)

lemma propagate_message64_zero_field:
  assumes "\<bar>b * j\<bar> \<le> 600"
  shows "propagate_message64 (Fin b) (Fin j) (Fin 0) (Fin (1 / 2)) = Fin (1 / 2)"
proof -
  define p where "p = exp (b * j)"
  define q where "q = exp (- (b * j))"
  from assms have "\<bar>- (b * j)\<bar> \<le> 600" by simp
  from exp_moderate(1) [OF assms] exp_moderate(1) [OF this]
  have pq: "0 < p" "p \<le> float_max / 4" "0 < q" "q \<le> float_max / 4"
    by (simp_all add: p_def q_def)
  note h = half_of_moderate [OF pq] half_of_moderate [OF pq(3,4) pq(1,2)]
  have f: "phi_field64 SU (Fin 0) (Fin b) = Fin 1" "phi_field64 SD (Fin 0) (Fin b) = Fin 1"
    using phi_field64_moderate [of b 0] by simp_all
  have up: "tmp_up64 (Fin b) (Fin j) (Fin 0) (Fin (1 / 2)) = Fin (p / 2 + q / 2)"
    by (simp only: tmp_up64_def phi_interaction64_moderate [OF assms, folded p_def q_def] f
        one_minus_half h)
  have dw: "tmp_dw64 (Fin b) (Fin j) (Fin 0) (Fin (1 / 2)) = Fin (q / 2 + p / 2)"
    by (simp only: tmp_dw64_def phi_interaction64_moderate [OF assms, folded p_def q_def] f
        one_minus_half h)
  show ?thesis
    by (simp only: propagate_message64_def up dw h)
qed


lemma messages_from64_half:
  assumes "\<And>jj hh. (jj, hh) \<in> set jhs \<Longrightarrow>
             propagate_message64 beta jj hh (Fin (1 / 2)) = Fin (1 / 2)"
  shows "messages_from64 beta jhs (Fin (1 / 2)) = replicate (Suc (length jhs)) (Fin (1 / 2))"
  using assms
proof (induction jhs)
  case Nil
  show ?case by simp
next
  case (Cons p jhs)
  obtain jj hh where p: "p = (jj, hh)" by (cases p)
  from Cons.prems [of jj hh]
  have step: "propagate_message64 beta jj hh (Fin (1 / 2)) = Fin (1 / 2)"
    by (simp add: p)
  from Cons.IH Cons.prems
  have "messages_from64 beta jhs (Fin (1 / 2)) = replicate (Suc (length jhs)) (Fin (1 / 2))"
    by simp
  then show ?case by (simp add: p step)
qed

lemma site_half:
  "fdiv (fmul (fmul (Fin (1 / 2)) (Fin 1)) (Fin (1 / 2)))
        (fadd (fmul (fmul (Fin (1 / 2)) (Fin 1)) (Fin (1 / 2)))
              (fmul (fmul (fsub (Fin 1) (Fin (1 / 2))) (Fin 1)) (fsub (Fin 1) (Fin (1 / 2)))))
   = Fin (1 / 2)"
  by (simp add: one_minus_half fin_unit)


lemma propagate_message64_overflow_coupling:
  "propagate_message64 (Fin 1) (Fin 1000) (Fin 0) (Fin (1 / 2)) = NaN"
proof -
  have "tmp_up64 (Fin 1) (Fin 1000) (Fin 0) (Fin (1 / 2)) = PInf"
    by (simp add: tmp_up64_def phi_interaction64_def phi_field64_def float_of_int_def
        SU_def SD_def fsub_def fin_1000 np_exp_1000 np_exp_m1000 np_exp_0 del: np_exp.simps)
  moreover have "tmp_dw64 (Fin 1) (Fin 1000) (Fin 0) (Fin (1 / 2)) = PInf"
    by (simp add: tmp_dw64_def phi_interaction64_def phi_field64_def float_of_int_def
        SU_def SD_def fsub_def fin_1000 np_exp_1000 np_exp_m1000 np_exp_0 del: np_exp.simps)
  ultimately show ?thesis by (simp add: propagate_message64_def)
qed

section \<open>Properties stated by the specification\<close>

text \<open>
  C8. For every valid call, \<open>len(couplings) == len(fields) - 1\<close>, \<open>marginals\<close> returns a
  sequence that has exactly \<open>len(fields)\<close> elements.
\<close>

theorem marginals_length:
  assumes "int (length coupling) = int (length field) - 1"
  shows "\<exists>ms. marginals beta coupling field = Inr ms \<and> length ms = length field"
proof -
  from assms have n: "length field = Suc (length coupling)" by linarith
  have "length (marginals_list
               (mu_up_non (messages_from beta (zip coupling (butlast field)) (1 / 2))
                  (lf_up beta field)
                  (rev (messages_from beta (zip (rev coupling) (rev (butlast field))) (1 / 2))))
               (mu_dw_non (messages_from beta (zip coupling (butlast field)) (1 / 2))
                  (lf_dw beta field)
                  (rev (messages_from beta (zip (rev coupling) (rev (butlast field))) (1 / 2)))))
        = length field"
    by (simp add: length_marginals_list length_messages_from lf_up_def lf_dw_def n)
  with marginals_valid [OF assms, of beta] show ?thesis by simp
qed

theorem marginals_length_witness:
  "int (length [1, 2 :: real]) = int (length [3, 4, 5 :: real]) - 1 \<and>
   (\<exists>ms. marginals 1 [1, 2] [3, 4, 5] = Inr ms \<and> length ms = length [3, 4, 5 :: real])"
  using marginals_length [of "[1, 2]" "[3, 4, 5]" 1] by simp

text \<open>
  C4. \<open>marginals\<close> raises the configuration error (Python's \<open>ValueError\<close>) if and only if
  \<open>len(couplings) != len(fields) - 1\<close>; this includes a single field with non-empty
  couplings, and empty fields. The check is the first statement of the function, so the
  result is the error alone: no list is returned.
\<close>

theorem marginals_shape_validation:
  "((marginals beta coupling field = Inl ValueError) =
      (int (length coupling) \<noteq> int (length field) - 1)) \<and>
   ((\<exists>ms. marginals beta coupling field = Inr ms) =
      (int (length coupling) = int (length field) - 1)) \<and>
   marginals beta (jj # coupling) [hh] = Inl ValueError \<and>
   marginals beta coupling [] = Inl ValueError"
proof (intro conjI)
  show "(marginals beta coupling field = Inl ValueError) =
     (int (length coupling) \<noteq> int (length field) - 1)"
  proof (cases "int (length coupling) = int (length field) - 1")
    case True
    with marginals_valid [OF True, of beta] show ?thesis by simp
  next
    case False
    then show ?thesis by (simp add: marginals_def)
  qed
  show "(\<exists>ms. marginals beta coupling field = Inr ms) =
     (int (length coupling) = int (length field) - 1)"
  proof (cases "int (length coupling) = int (length field) - 1")
    case True
    with marginals_valid [OF True, of beta] show ?thesis by simp
  next
    case False
    then show ?thesis by (simp add: marginals_def)
  qed
  show "marginals beta (jj # coupling) [hh] = Inl ValueError"
    by (simp add: marginals_def)
  show "marginals beta coupling [] = Inl ValueError"
    by (simp add: marginals_def)
qed

theorem marginals_shape_validation_witness:
  "marginals 1 [1, 2] [3] = Inl ValueError \<and> marginals 1 [] [] = Inl ValueError \<and>
   (\<exists>ms. marginals 1 [] [3] = Inr ms)"
  using marginals_shape_validation [of 1 "[1, 2]" "[3]"]
    marginals_shape_validation [of 1 "[]" "[]"]
    marginals_shape_validation [of 1 "[]" "[3]"]
  by simp

text \<open>
  C1. For every \<open>beta\<close>, \<open>J\<close>, \<open>h\<close> and incoming message \<open>mu_up\<close> in \<open>[0, 1]\<close>, the
  message update returns \<open>tmp_up / (tmp_up + tmp_dw)\<close>, where \<open>tmp_up\<close> and \<open>tmp_dw\<close>
  are, for the outgoing spin \<open>+1\<close> and \<open>-1\<close>, the sums over the source spin of
  \<open>pairwise * field * P\<close> as the specification words them. The source passes the two
  spins to the pairwise potential in the other order, which the potential does not
  see. For such a message the denominator is positive.
\<close>

theorem propagate_message_refines_spec:
  assumes "0 \<le> mu_up" "mu_up \<le> 1"
  shows "tmp_up beta J h mu_up = spec_unnormalised beta J h mu_up 1 \<and>
         tmp_dw beta J h mu_up = spec_unnormalised beta J h mu_up (- 1) \<and>
         0 < spec_unnormalised beta J h mu_up 1 + spec_unnormalised beta J h mu_up (- 1) \<and>
         propagate_message beta J h mu_up =
           spec_unnormalised beta J h mu_up 1 /
           (spec_unnormalised beta J h mu_up 1 + spec_unnormalised beta J h mu_up (- 1))"
proof -
  have up: "tmp_up beta J h mu_up = spec_unnormalised beta J h mu_up 1"
    by (simp add: tmp_up_def spec_unnormalised_def spec_pairwise_def spec_field_def
        spec_P_def phi_interaction_def phi_field_def SU_def SD_def)
  have dw: "tmp_dw beta J h mu_up = spec_unnormalised beta J h mu_up (- 1)"
    by (simp add: tmp_dw_def spec_unnormalised_def spec_pairwise_def spec_field_def
        spec_P_def phi_interaction_def phi_field_def SU_def SD_def)
  have "0 < tmp_up beta J h mu_up + tmp_dw beta J h mu_up"
    using tmp_up_pos [OF assms, of beta J h] tmp_dw_pos [OF assms, of beta J h] by simp
  then show ?thesis
    by (simp add: propagate_message_def up dw)
qed

theorem propagate_message_refines_spec_witness:
  "(0 :: real) \<le> 1 / 2 \<and> (1 / 2 :: real) \<le> 1 \<and>
   propagate_message 1 (ln 2) (ln 2) (1 / 2) =
     spec_unnormalised 1 (ln 2) (ln 2) (1 / 2) 1 /
     (spec_unnormalised 1 (ln 2) (ln 2) (1 / 2) 1 +
      spec_unnormalised 1 (ln 2) (ln 2) (1 / 2) (- 1)) \<and>
   spec_unnormalised 1 (ln 2) (ln 2) (1 / 2) 1 = 17 / 8 \<and>
   spec_unnormalised 1 (ln 2) (ln 2) (1 / 2) (- 1) = 1"
  using propagate_message_refines_spec [of "1 / 2" 1 "ln 2" "ln 2"]
  by (simp add: spec_unnormalised_def spec_pairwise_def spec_field_def spec_P_def exp_minus)

text \<open>
  C5. The chain propagator returns \<open>N\<close> messages aligned with the fields; in direction
  \<open>left\<close> the element \<open>0\<close> is the starting message and element \<open>i + 1\<close> comes from the
  update with \<open>coupling[i]\<close> and \<open>field[i]\<close>; in direction \<open>right\<close> the element \<open>N - 1\<close>
  is the starting message and the specification has step \<open>i\<close> pair \<open>coupling[N-2-i]\<close> with
  \<open>field[N-1-i]\<close>, the field at the source end of the edge. The slice
  \<^verbatim>\<open>field[-2::-1]\<close> starts one element too far to the left: the source pairs
  \<open>coupling[N-2-i]\<close> with \<open>field[N-2-i]\<close>. On the chain with one coupling \<open>ln 2\<close> and fields
  \<open>[0, ln 2]\<close> the message at index \<open>0\<close> is computed from \<open>field[0] = 0\<close>, which gives
  \<open>1/2\<close>, where the update with \<open>field[1] = ln 2\<close> gives \<open>17/25\<close>.
\<close>

theorem chain_right_uses_wrong_field:
  "propagate_messages_chain 1 [ln 2] [0, ln 2] (1 / 2) ''right'' =
     Inr [propagate_message 1 (ln 2) 0 (1 / 2), 1 / 2] \<and>
   propagate_message 1 (ln 2) 0 (1 / 2) = 1 / 2 \<and>
   propagate_message 1 (ln 2) (ln 2) (1 / 2) = 17 / 25"
proof -
  have "int (length [ln 2 :: real]) = int (length [0, ln 2 :: real]) - 1" by simp
  from propagate_messages_chain_right [OF this, of 1 "1 / 2"]
  have "propagate_messages_chain 1 [ln 2] [0, ln 2] (1 / 2) ''right'' =
     Inr [propagate_message 1 (ln 2) 0 (1 / 2), 1 / 2]"
    by simp
  then show ?thesis
    by (simp add: propagate_message_zero_field propagate_message_ln2)
qed

text \<open>
  C10. Mirror symmetry: reversing the couplings and the fields should reverse the
  sequence of marginals. Because of the field the right-to-left pass picks, it does
  not: on the chain with one coupling \<open>ln 2\<close> and fields \<open>[0, ln 2]\<close> the source
  returns \<open>[1/2, 4/5]\<close>, and on the reversed chain \<open>[17/19, 17/25]\<close>.
\<close>

theorem marginals_not_mirror_symmetric:
  "marginals 1 [ln 2] [0, ln 2] = Inr [1 / 2, 4 / 5] \<and>
   marginals 1 (rev [ln 2]) (rev [0, ln 2]) = Inr [17 / 19, 17 / 25]"
proof -
  have a: "int (length [ln 2 :: real]) = int (length [0, ln 2 :: real]) - 1" by simp
  have b: "int (length (rev [ln 2 :: real])) = int (length (rev [0, ln 2 :: real])) - 1"
    by simp
  have "marginals 1 [ln 2] [0, ln 2] = Inr [1 / 2, 4 / 5]"
    unfolding marginals_valid [OF a]
    by (simp add: propagate_message_zero_field marginals_list_def mu_up_non_def
        mu_dw_non_def lf_up_def lf_dw_def SU_def SD_def exp_minus)
  moreover have "marginals 1 (rev [ln 2]) (rev [0, ln 2]) = Inr [17 / 19, 17 / 25]"
    unfolding marginals_valid [OF b]
    by (simp add: propagate_message_ln2 marginals_list_def mu_up_non_def
        mu_dw_non_def lf_up_def lf_dw_def SU_def SD_def exp_minus)
  ultimately show ?thesis ..
qed

text \<open>
  C7. The specification states that for every valid call every element of the sequence
  returned by \<open>marginals\<close> lies in \<open>[0, 1]\<close>. On doubles the exponential of a large
  product overflows: \<open>marginals(1.0, [], [1000.0])\<close> has \<open>lf_up = [inf]\<close> and
  \<open>lf_dw = [0.0]\<close>, and returns \<open>[nan]\<close>, the quotient \<open>inf / (inf + 0.0)\<close>.
\<close>

theorem marginals_returns_nan:
  "marginals64 (Fin 1) [] [Fin 1000] = Inr [NaN]"
proof -
  have "int (length ([] :: float64 list)) = int (length [Fin 1000]) - 1" by simp
  from marginals64_valid [OF this, of "Fin 1"] show ?thesis
    by (simp add: marginals_list64_def mu_up_non64_def mu_dw_non64_def lf_up64_def lf_dw64_def
        float_of_int_def SU_def SD_def fsub_def fin_1000 np_exp_1000 np_exp_m1000
        del: np_exp.simps)
qed

text \<open>
  C7, as the source has it. For every valid call, every element of the sequence
  returned by \<open>marginals\<close> is nan or lies in \<open>[0, 1]\<close>: the exponentials are not
  negative or are \<open>+inf\<close>, the messages start at \<open>0.5\<close>, and a quotient \<open>a / (a + c)\<close> of
  such terms is nan (for \<open>inf / inf\<close> and \<open>0 / 0\<close>) or a number between \<open>0\<close> and \<open>1\<close>.
  This holds for all doubles \<open>beta\<close>, couplings and fields, also infinite ones and nan.
\<close>

theorem marginals_nan_or_range:
  assumes "int (length coupling) = int (length field) - 1"
  shows "\<exists>ms. marginals64 beta coupling field = Inr ms \<and>
           (\<forall>x \<in> set ms. x = NaN \<or> (\<exists>r. x = Fin r \<and> 0 \<le> r \<and> r \<le> 1))"
proof -
  define L where "L = messages_from64 beta (zip coupling (butlast field)) (Fin (1 / 2))"
  define R where
    "R = rev (messages_from64 beta (zip (rev coupling) (rev (butlast field))) (Fin (1 / 2)))"
  have L: "nan_or_unit ml" if "ml \<in> set L" for ml
    using that nan_or_unit_messages_from64 [of "Fin (1 / 2)" ml] by (simp add: L_def)
  have R: "nan_or_unit mr" if "mr \<in> set R" for mr
    using that nan_or_unit_messages_from64 [of "Fin (1 / 2)" mr] by (simp add: R_def)
  have "x = NaN \<or> (\<exists>r. x = Fin r \<and> 0 \<le> r \<and> r \<le> 1)"
    if "x \<in> set (marginals_list64 (mu_up_non64 L (lf_up64 beta field) R)
                     (mu_dw_non64 L (lf_dw64 beta field) R))" for x
    using nan_or_unit_marginals_list64 [OF L R that] by (cases x) simp_all
  with marginals64_valid [OF assms, of beta] show ?thesis
    by (simp add: L_def R_def)
qed

theorem marginals_nan_or_range_witness:
  "int (length [Fin 3]) = int (length [Fin 1000, NaN]) - 1 \<and>
   (\<exists>ms. marginals64 PInf [Fin 3] [Fin 1000, NaN] = Inr ms \<and>
      (\<forall>x \<in> set ms. x = NaN \<or> (\<exists>r. x = Fin r \<and> 0 \<le> r \<and> r \<le> 1)))"
  using marginals_nan_or_range [of "[Fin 3]" "[Fin 1000, NaN]" PInf] by simp




text \<open>
  C6. The specification states that, for every \<open>beta\<close> and equal couplings, zero fields
  give marginals that are all \<open>0.5\<close>. On doubles the exponential of a large product
  overflows: in \<open>marginals(1.0, [1000.0], [0.0, 0.0])\<close> both unnormalised terms of the
  update are \<open>inf\<close>, the message is nan, and the call returns \<open>[nan, nan]\<close>.
\<close>

theorem marginals_zero_field_nan:
  "marginals64 (Fin 1) [Fin 1000] [Fin 0, Fin 0] = Inr [NaN, NaN]"
proof -
  have "int (length [Fin 1000]) = int (length [Fin 0, Fin 0]) - 1" by simp
  from marginals64_valid [OF this, of "Fin 1"] show ?thesis
    by (simp add: propagate_message64_overflow_coupling marginals_list64_def mu_up_non64_def
        mu_dw_non64_def lf_up64_def lf_dw64_def float_of_int_def SU_def SD_def fsub_def
        fin_1000 np_exp_0 del: np_exp.simps)
qed

text \<open>
  C6, as the source has it. If all fields are \<open>0\<close>, all couplings are equal to \<open>J\<close>,
  and the product \<open>beta * J\<close> is moderate (at most \<open>600\<close> in absolute value, so that no
  exponential overflows), then every marginal is exactly \<open>0.5\<close>: the two unnormalised
  terms of each update are the same sum, so every message is \<open>0.5\<close>.
\<close>

theorem marginals_zero_field_moderate:
  assumes "int (length coupling) = int (length field) - 1"
    and "\<forall>jj \<in> set coupling. jj = Fin j"
    and "\<bar>b * j\<bar> \<le> 600"
    and "\<forall>hh \<in> set field. hh = Fin 0"
  shows "marginals64 (Fin b) coupling field = Inr (replicate (length field) (Fin (1 / 2)))"
proof -
  from assms(1) have n: "length field = Suc (length coupling)" by linarith
  from assms(4) have field: "field = replicate (length field) (Fin 0)"
    by (simp add: replicate_length_same)
  have step: "propagate_message64 (Fin b) jj hh (Fin (1 / 2)) = Fin (1 / 2)"
    if "jj \<in> set coupling" "hh \<in> set field" for jj hh
    using that assms(2,4) propagate_message64_zero_field [OF assms(3)] by auto
  have "messages_from64 (Fin b) (zip coupling (butlast field)) (Fin (1 / 2)) =
        replicate (Suc (length (zip coupling (butlast field)))) (Fin (1 / 2))"
    by (intro messages_from64_half step) (auto dest: set_zip_leftD set_zip_rightD in_set_butlastD)
  then have L: "messages_from64 (Fin b) (zip coupling (butlast field)) (Fin (1 / 2)) =
        replicate (length field) (Fin (1 / 2))"
    by (simp add: n)
  have "messages_from64 (Fin b) (zip (rev coupling) (rev (butlast field))) (Fin (1 / 2)) =
        replicate (Suc (length (zip (rev coupling) (rev (butlast field))))) (Fin (1 / 2))"
  proof (intro messages_from64_half step)
    fix jj hh
    assume m: "(jj, hh) \<in> set (zip (rev coupling) (rev (butlast field)))"
    from set_zip_leftD [OF m] show "jj \<in> set coupling" by simp
    from set_zip_rightD [OF m] have "hh \<in> set (butlast field)" by simp
    then show "hh \<in> set field" by (rule in_set_butlastD)
  qed
  then have "messages_from64 (Fin b) (zip (rev coupling) (rev (butlast field))) (Fin (1 / 2)) =
        replicate (length field) (Fin (1 / 2))"
    by (simp add: n)
  then have R: "rev (messages_from64 (Fin b) (zip (rev coupling) (rev (butlast field)))
        (Fin (1 / 2))) = replicate (length field) (Fin (1 / 2))"
    by (simp only: rev_replicate)
  have up: "lf_up64 (Fin b) (replicate (length field) (Fin 0)) =
            replicate (length field) (Fin 1)"
    by (simp add: lf_up64_def float_of_int_def SU_def fin_unit np_exp_0 del: np_exp.simps)
  have dw: "lf_dw64 (Fin b) (replicate (length field) (Fin 0)) =
            replicate (length field) (Fin 1)"
    by (simp add: lf_dw64_def float_of_int_def SD_def fin_unit np_exp_0 del: np_exp.simps)
  have "marginals_list64
          (mu_up_non64 (replicate (length field) (Fin (1 / 2)))
             (lf_up64 (Fin b) (replicate (length field) (Fin 0)))
             (replicate (length field) (Fin (1 / 2))))
          (mu_dw_non64 (replicate (length field) (Fin (1 / 2)))
             (lf_dw64 (Fin b) (replicate (length field) (Fin 0)))
             (replicate (length field) (Fin (1 / 2))))
        = replicate (length field) (Fin (1 / 2))"
    unfolding up dw
    by (simp only: marginals_list64_def mu_up_non64_def mu_dw_non64_def zip_replicate
        map_replicate min.idem prod.case site_half)
  with field have "marginals_list64
          (mu_up_non64 (replicate (length field) (Fin (1 / 2))) (lf_up64 (Fin b) field)
             (replicate (length field) (Fin (1 / 2))))
          (mu_dw_non64 (replicate (length field) (Fin (1 / 2))) (lf_dw64 (Fin b) field)
             (replicate (length field) (Fin (1 / 2))))
        = replicate (length field) (Fin (1 / 2))"
    by simp
  then show ?thesis
    unfolding marginals64_valid [OF assms(1)] L R by simp
qed

theorem marginals_zero_field_moderate_witness:
  "int (length [Fin 600, Fin 600]) = int (length [Fin 0, Fin 0, Fin 0]) - 1 \<and>
   \<bar>1 * 600 :: real\<bar> \<le> 600 \<and>
   marginals64 (Fin 1) [Fin 600, Fin 600] [Fin 0, Fin 0, Fin 0] =
     Inr [Fin (1 / 2), Fin (1 / 2), Fin (1 / 2)]"
  using marginals_zero_field_moderate [of "[Fin 600, Fin 600]" "[Fin 0, Fin 0, Fin 0]" 600 1]
  by (simp add: numeral_3_eq_3)




end
